theory Spec2Isabelle
  imports Main
begin

section \<open>The console of go-expanse: completion, statement accumulation, history, hooks\<close>

text \<open>
  Go strings are byte sequences; they are modelled as \<open>string\<close> (a list of 8-bit
  characters). Go's \<open>int\<close> is modelled as \<open>int\<close>: every integer of the console is
  a byte count or a difference of byte counts of a string held in memory, so the 64-bit
  range is never left.
\<close>

subsection \<open>The functions of package strings that the console calls\<close>

text \<open>\<open>strings.Count(s, sep)\<close> for a one-byte separator.\<close>

definition Count :: "string \<Rightarrow> char \<Rightarrow> int" where
  "Count s c = int (length (filter (\<lambda>x. x = c) s))"

text \<open>\<open>strings.HasPrefix(s, prefix)\<close>.\<close>

definition HasPrefix :: "string \<Rightarrow> string \<Rightarrow> bool" where
  "HasPrefix s p = (take (length p) s = p)"

text \<open>\<open>strings.Contains(s, sep)\<close> for a one-byte separator.\<close>

definition Contains :: "string \<Rightarrow> char \<Rightarrow> bool" where
  "Contains s c = (c \<in> set s)"

text \<open>
  \<open>strings.Split(s, sep)\<close> for a one-byte separator: the pieces between the
  separators, one more than there are separators. \<open>cur\<close> is the piece being read.
\<close>

fun SplitFrom :: "string \<Rightarrow> char \<Rightarrow> string \<Rightarrow> string list" where
  "SplitFrom cur sep [] = [cur]"
| "SplitFrom cur sep (c # cs) =
     (if c = sep then cur # SplitFrom [] sep cs else SplitFrom (cur @ [c]) sep cs)"

definition Split :: "string \<Rightarrow> char \<Rightarrow> string list" where
  "Split s sep = SplitFrom [] sep s"

text \<open>\<open>strings.Trim(s, " ")\<close>: leading and trailing spaces removed.\<close>

definition Trim :: "string \<Rightarrow> string" where
  "Trim s = rev (dropWhile (\<lambda>c. c = CHR '' '') (rev (dropWhile (\<lambda>c. c = CHR '' '') s)))"

text \<open>\<open>strings.TrimSuffix(s, "\n")\<close>.\<close>

definition TrimSuffix :: "string \<Rightarrow> string" where
  "TrimSuffix s = (if s \<noteq> [] \<and> last s = CHR 0x0A then butlast s else s)"

subsection \<open>The password pattern\<close>

text \<open>
  \<open>passwordRegexp = regexp.MustCompile("personal.[nu]")\<close>. Go's regexp reads its
  input as UTF-8: \<open>.\<close> matches one code point other than the line feed, and a byte
  that starts no valid encoding counts as one code point of width 1.
  \<open>rune_width\<close> is the width that \<open>utf8.DecodeRuneInString\<close> returns for a
  non-empty string.
\<close>

definition cont_byte :: "nat \<Rightarrow> nat \<Rightarrow> string \<Rightarrow> nat \<Rightarrow> bool" where
  "cont_byte lo hi s k = (k < length s \<and> lo \<le> of_char (s ! k) \<and> of_char (s ! k) \<le> (hi::nat))"

definition rune_width :: "string \<Rightarrow> nat" where
  "rune_width s =
     (let b = (of_char (hd s) :: nat);
          sz = (if 0xC2 \<le> b \<and> b \<le> 0xDF then 2
                else if 0xE0 \<le> b \<and> b \<le> 0xEF then 3
                else if 0xF0 \<le> b \<and> b \<le> 0xF4 then 4 else (1::nat));
          lo = (if b = 0xE0 then 0xA0 else if b = 0xF0 then 0x90 else 0x80);
          hi = (if b = 0xED then 0x9F else if b = 0xF4 then 0x8F else 0xBF)
      in if sz = 1 then 1
         else if length s < sz then 1
         else if \<not> cont_byte lo hi s 1 then 1
         else if sz = 2 then 2
         else if \<not> cont_byte 0x80 0xBF s 2 then 1
         else if sz = 3 then 3
         else if \<not> cont_byte 0x80 0xBF s 3 then 1
         else 4)"

text \<open>The pattern matched at the start of \<open>s\<close>.\<close>

definition passwordRegexp_here :: "string \<Rightarrow> bool" where
  "passwordRegexp_here s =
     (HasPrefix s ''personal'' \<and>
      (let r = drop 8 s
       in r \<noteq> [] \<and> hd r \<noteq> CHR 0x0A \<and>
          (case drop (rune_width r) r of
             [] \<Rightarrow> False
           | c # _ \<Rightarrow> c = CHR ''n'' \<or> c = CHR ''u'')))"

text \<open>\<open>passwordRegexp.MatchString(input)\<close>: the pattern matches somewhere.\<close>

fun passwordRegexp_MatchString :: "string \<Rightarrow> bool" where
  "passwordRegexp_MatchString [] = False"
| "passwordRegexp_MatchString (c # cs) =
     (passwordRegexp_here (c # cs) \<or> passwordRegexp_MatchString cs)"

definition passwordRepl :: string where
  "passwordRepl = ''''"

definition hidepassword :: "string \<Rightarrow> string" where
  "hidepassword input =
     (if passwordRegexp_MatchString input then passwordRepl else input)"

subsection \<open>Completion\<close>

text \<open>
  \<open>loadedModulesMethods\<close> is a Go map from module names to method lists. Ranging over
  a Go map visits its entries in an order the runtime chooses, so the catalog is an
  association list with distinct keys whose order is the order of that visit; a lookup
  is \<open>map_of\<close>. The nil map (nothing loaded) is the empty list.
\<close>

type_synonym catalog = "(string \<times> string list) list"

text \<open>The loop over \<open>methods\<close> in the branch of a line with a dot.\<close>

fun prefixedMethods :: "string \<Rightarrow> string \<Rightarrow> string list \<Rightarrow> string list \<Rightarrow> string list" where
  "prefixedMethods module partialMethod results [] = results"
| "prefixedMethods module partialMethod results (method # methods) =
     prefixedMethods module partialMethod
       (if HasPrefix method partialMethod then results @ [module @ ''.'' @ method] else results)
       methods"

text \<open>The loop over \<open>methods\<close> for a line that is a full module name.\<close>

fun allMethods :: "string \<Rightarrow> string list \<Rightarrow> string list \<Rightarrow> string list" where
  "allMethods module results [] = results"
| "allMethods module results (method # methods) =
     allMethods module (results @ [module @ ''.'' @ method]) methods"

text \<open>The loop over the modules for a line without a dot.\<close>

fun overModules :: "string \<Rightarrow> string list \<Rightarrow> catalog \<Rightarrow> string list" where
  "overModules line results [] = results"
| "overModules line results ((module, methods) # rest) =
     overModules line
       (if line = module then allMethods module results methods
        else if HasPrefix module line then results @ [module]
        else results)
       rest"

definition keywordCompleter :: "catalog \<Rightarrow> string \<Rightarrow> string list" where
  "keywordCompleter loadedModulesMethods line =
     (if Contains line CHR ''.'' then
        (let elements = Split line CHR ''.'' in
         if length elements = 2 then
           (let module = elements ! 0; partialMethod = elements ! 1 in
            case map_of loadedModulesMethods module of
              Some methods \<Rightarrow> prefixedMethods module partialMethod [] methods
            | None \<Rightarrow> [])
         else [])
      else overModules line [] loadedModulesMethods)"

text \<open>
  The two tests of the scan in \<open>apiWordCompleter\<close> at index \<open>i\<close>: a dot or an ASCII
  letter, or the \<open>3\<close> that ends \<open>web3\<close>.
\<close>

definition dotOrLetter :: "char \<Rightarrow> bool" where
  "dotOrLetter c =
     (c = CHR ''.'' \<or>
      ((of_char CHR ''a'' :: nat) \<le> of_char c \<and> (of_char c :: nat) \<le> of_char CHR ''z'') \<or>
      ((of_char CHR ''A'' :: nat) \<le> of_char c \<and> (of_char c :: nat) \<le> of_char CHR ''Z''))"

definition web3Digit :: "string \<Rightarrow> nat \<Rightarrow> bool" where
  "web3Digit line i =
     (3 \<le> i \<and> line ! i = CHR ''3'' \<and> line ! (i - 3) = CHR ''w'' \<and>
      line ! (i - 2) = CHR ''e'' \<and> line ! (i - 1) = CHR ''b'')"

definition continues :: "string \<Rightarrow> nat \<Rightarrow> bool" where
  "continues line i = (dotOrLetter (line ! i) \<or> web3Digit line i)"

text \<open>
  The loop \<open>for i = pos - 1; i > 0; i-- { ... }\<close> started at index \<open>i\<close>; the result is
  the value of \<open>i\<close> after the loop. Index 0 is never tested.
\<close>

fun scanBack :: "string \<Rightarrow> nat \<Rightarrow> nat" where
  "scanBack line 0 = 0"
| "scanBack line (Suc k) = (if continues line (Suc k) then scanBack line k else Suc k + 1)"

text \<open>The run-time panic of an index or a slice bound out of range.\<close>

datatype panic = OutOfRange

text \<open>
  \<open>apiWordCompleter\<close>. With a non-empty line, a negative \<open>pos\<close> skips the loop and panics
  at \<open>line[:i]\<close> (the least integer wraps and panics in the loop), and a \<open>pos\<close> beyond
  the line panics at the first \<open>line[i]\<close>. The nil slice of completions is the empty list.
\<close>

definition apiWordCompleter ::
  "catalog \<Rightarrow> string \<Rightarrow> int \<Rightarrow> panic + (string \<times> string list \<times> string)" where
  "apiWordCompleter loadedModulesMethods line pos =
     (if length line = 0 \<or> pos = 0 then Inr ('''', [], '''')
      else if pos < 0 then Inl OutOfRange
      else if int (length line) < pos then Inl OutOfRange
      else
        (let i = scanBack line (nat (pos - 1));
             begin = take i line;
             keyword = drop i (take (nat pos) line);
             end = drop (nat pos) line
         in Inr (begin, keywordCompleter loadedModulesMethods keyword, end)))"

subsection \<open>The interactive loop\<close>

text \<open>
  The \<open>prompter\<close> of the console is one of two: the \<open>dumbterm\<close> of this file, or the
  state of the line editor (package liner, not part of this repository). The line editor
  keeps the history; its method \<open>AppendHistory\<close>, which takes an item and the history
  and returns the new history, is carried by the constructor as a parameter.
\<close>

datatype prompter = dumbterm | liner "string \<Rightarrow> string list \<Rightarrow> string list"

text \<open>
  \<open>liner.State.AppendHistory\<close> as the line editor has it: an item equal to the last
  entry is dropped; any other item is appended, and the oldest entry leaves a history
  that has grown beyond \<open>HistoryLimit\<close>.
\<close>

definition HistoryLimit :: nat where
  "HistoryLimit = 1000"

definition liner_AppendHistory :: "string \<Rightarrow> string list \<Rightarrow> string list" where
  "liner_AppendHistory item h =
     (if length h > 0 \<and> item = last h then h
      else (let h1 = h @ [item] in if length h1 > HistoryLimit then tl h1 else h1))"

text \<open>
  The package variables \<open>indentCount\<close> and \<open>str\<close>, the prompt \<open>ps1\<close> and the \<open>prompter\<close>
  of the console, the history that the line editor keeps (with the \<open>dumbterm\<close> there is
  none, and the field stays empty), and the arguments of the calls of \<open>parseInput\<close> in
  order (the statements handed to evaluation).
\<close>

record session =
  indentCount :: int
  str :: string
  ps1 :: string
  prompter :: prompter
  history :: "string list"
  evaluated :: "string list"

text \<open>
  The console as \<open>newJSRE\<close> leaves it, with the prompter that it chooses (the
  \<open>dumbterm\<close> when the terminal is not supported or the console is not interactive, the
  line editor otherwise) and, for the line editor, the history read from the file.
\<close>

definition newJSRE :: "prompter \<Rightarrow> string list \<Rightarrow> session" where
  "newJSRE p loaded =
     \<lparr>indentCount = 0, str = [], ps1 = ''> '', prompter = p,
      history = (case p of dumbterm \<Rightarrow> [] | liner lr \<Rightarrow> loaded), evaluated = []\<rparr>"

definition resetPrompt :: "session \<Rightarrow> session" where
  "resetPrompt s = s\<lparr>indentCount := 0, str := [], ps1 := ''> ''\<rparr>"

text \<open>\<open>strings.Join(make([]string, n), sep)\<close>: \<open>n\<close> empty strings joined.\<close>

definition JoinEmpty :: "int \<Rightarrow> string \<Rightarrow> string" where
  "JoinEmpty n sep = concat (replicate (nat n - 1) sep)"

definition setIndent :: "session \<Rightarrow> session" where
  "setIndent s =
     (let opened = Count (str s) CHR ''{'' + Count (str s) CHR ''('';
          closed = Count (str s) CHR ''}'' + Count (str s) CHR '')'';
          s1 = s\<lparr>indentCount := opened - closed\<rparr>
      in if indentCount s1 \<le> 0 then s1\<lparr>ps1 := ''> ''\<rparr>
         else s1\<lparr>ps1 := JoinEmpty (indentCount s1 * 2) ''..'' @ '' ''\<rparr>)"

text \<open>
  \<open>self.AppendHistory(hist)\<close>: the method of the prompter. That of the \<open>dumbterm\<close> has
  an empty body.
\<close>

definition AppendHistory :: "string \<Rightarrow> session \<Rightarrow> session" where
  "AppendHistory hist s =
     (case prompter s of
        dumbterm \<Rightarrow> s
      | liner lr \<Rightarrow> s\<lparr>history := lr hist (history s)\<rparr>)"

definition parseInput :: "string \<Rightarrow> session \<Rightarrow> session" where
  "parseInput code s = s\<lparr>evaluated := evaluated s @ [code]\<rparr>"

text \<open>
  What the loop of \<open>interactive\<close> can receive while it waits: a line from the reading
  goroutine, the empty line that this goroutine sends after \<open>resetPrompt\<close> when the prompt
  was aborted, the closing of the channel after any other prompt error, or the interrupt
  signal.
\<close>

datatype event = Line string | PromptAborted | InputClosed | Interrupt

text \<open>The lines 414 to 423: the line is appended and, at depth 0 or below, submitted.\<close>

definition accumulate :: "string \<Rightarrow> session \<Rightarrow> session" where
  "accumulate input s =
     (let s1 = setIndent (s\<lparr>str := str s @ input @ [CHR 0x0A]\<rparr>)
      in if indentCount s1 \<le> 0 then
           (let hist = hidepassword (butlast (str s1));
                s2 = (if length hist > 0 then AppendHistory hist s1 else s1);
                s3 = parseInput (str s1) s2
            in s3\<lparr>str := []\<rparr>)
         else s1)"

text \<open>The case \<open>input, ok := <-inputln\<close>; \<open>None\<close> is the return of \<open>interactive\<close>.\<close>

definition received :: "string \<Rightarrow> bool \<Rightarrow> session \<Rightarrow> session option" where
  "received input ok s =
     (if \<not> ok \<or> (indentCount s \<le> 0 \<and> input = ''exit'') then None
      else if input = [] then Some s
      else Some (accumulate input s))"

text \<open>One round of the loop of \<open>interactive\<close>.\<close>

fun interactive_step :: "session \<Rightarrow> event \<Rightarrow> session option" where
  "interactive_step s (Line input) = received input True s"
| "interactive_step s PromptAborted = received [] True (resetPrompt s)"
| "interactive_step s InputClosed = received [] False s"
| "interactive_step s Interrupt = None"

text \<open>The loop over a sequence of events; \<open>Some\<close> is the loop waiting for the next one.\<close>

fun interactive :: "session \<Rightarrow> event list \<Rightarrow> session option" where
  "interactive s [] = Some s"
| "interactive s (e # es) =
     (case interactive_step s e of None \<Rightarrow> None | Some s' \<Rightarrow> interactive s' es)"

text \<open>The states in which the loop can wait for its next event.\<close>

inductive reachable :: "session \<Rightarrow> bool" where
  start: "reachable (newJSRE p loaded)"
| step: "reachable s \<Longrightarrow> interactive_step s e = Some s' \<Longrightarrow> reachable s'"

subsection \<open>The frontend hooks and the reading terminal\<close>

datatype error = EOF | ErrPromptAborted

text \<open>The standard input still to be read and the standard output written so far.\<close>

record console =
  stdin :: string
  stdout :: string

text \<open>
  \<open>bufio.Reader.ReadString(delim)\<close> on an input that ends: the bytes up to and
  including the delimiter, or what is left together with \<open>io.EOF\<close>.
\<close>

definition ReadString :: "char \<Rightarrow> console \<Rightarrow> (string \<times> error option) \<times> console" where
  "ReadString delim t =
     (if delim \<in> set (stdin t)
      then ((takeWhile (\<lambda>c. c \<noteq> delim) (stdin t) @ [delim], None),
            t\<lparr>stdin := tl (dropWhile (\<lambda>c. c \<noteq> delim) (stdin t))\<rparr>)
      else ((stdin t, Some EOF), t\<lparr>stdin := []\<rparr>))"

type_synonym prompt_method = "string \<Rightarrow> console \<Rightarrow> (string \<times> error option) \<times> console"

text \<open>\<open>dumbterm.Prompt\<close>.\<close>

definition dumbterm_Prompt :: prompt_method where
  "dumbterm_Prompt p t =
     (let t1 = t\<lparr>stdout := stdout t @ p\<rparr>;
          ((line, err), t2) = ReadString (CHR 0x0A) t1
      in ((TrimSuffix line, err), t2))"

text \<open>
  \<open>ConfirmTransaction\<close>, with the \<open>NatSpec\<close> flag of the node, the prompter of the
  console and the notice that \<open>natspec.GetNotice\<close> renders for the transaction.
\<close>

definition ConfirmTransaction ::
  "bool \<Rightarrow> prompt_method \<Rightarrow> string \<Rightarrow> console \<Rightarrow> bool \<times> console" where
  "ConfirmTransaction NatSpec Prompt notice t =
     (if NatSpec then
        (let t1 = t\<lparr>stdout := stdout t @ notice @ [CHR 0x0A]\<rparr>;
             ((answer, _), t2) = Prompt ''Confirm Transaction [y/n]'' t1
         in (HasPrefix (Trim answer) ''y'', t2))
      else (True, t))"

text \<open>
  \<open>UnlockAccount\<close>, with the password prompt of the console, the \<open>Unlock\<close> operation of
  the account manager (its result is the error, if any) and the address as \<open>%x\<close>
  prints it.
\<close>

definition UnlockAccount ::
  "prompt_method \<Rightarrow> (string \<Rightarrow> 'e option) \<Rightarrow> string \<Rightarrow> console \<Rightarrow> bool \<times> console" where
  "UnlockAccount PasswordPrompt Unlock hexaddr t =
     (let t1 = t\<lparr>stdout := stdout t @ ''Please unlock account '' @ hexaddr @ ''.'' @ [CHR 0x0A]\<rparr>;
          ((pass, err), t2) = PasswordPrompt ''Passphrase: '' t1
      in if err \<noteq> None then (False, t2)
         else if Unlock pass \<noteq> None then (False, t2)
         else (True, t2\<lparr>stdout := stdout t2 @ ''Account is now unlocked for this session.''
                                   @ [CHR 0x0A]\<rparr>))"

subsection \<open>The bridge object\<close>

text \<open>
  \<open>apiBindings\<close> creates the empty object \<open>jeth\<close> and sets two of its properties.
  \<open>Send\<close> is the method \<open>jeth.Send\<close> of package rpc, a parameter here: it takes a
  call and the state of the backend and returns a result and the new state.
\<close>

definition jethObj :: "'f \<Rightarrow> (string \<rightharpoonup> 'f)" where
  "jethObj Send = (Map.empty(''send'' \<mapsto> Send))(''sendAsync'' \<mapsto> Send)"

text \<open>A script calls the property \<open>name\<close> of an object; a missing property is no function.\<close>

definition invoke ::
  "(string \<rightharpoonup> ('c \<Rightarrow> 'b \<Rightarrow> 'r \<times> 'b)) \<Rightarrow> string \<Rightarrow> 'c \<Rightarrow> 'b \<Rightarrow> ('r \<times> 'b) option" where
  "invoke obj name call backend =
     (case obj name of None \<Rightarrow> None | Some f \<Rightarrow> Some (f call backend))"

subsection \<open>Notions of the specification\<close>

text \<open>
  The net depth of a buffer in the words of the specification: the count of \<open>{\<close> plus
  the count of \<open>(\<close>, minus the count of \<open>}\<close> plus the count of \<open>)\<close>.
\<close>

definition netDepth :: "string \<Rightarrow> int" where
  "netDepth b =
     (Count b CHR ''{'' + Count b CHR ''('') - (Count b CHR ''}'' + Count b CHR '')'')"

text \<open>The buffer that a sequence of lines builds: every line followed by a line feed.\<close>

definition buffered :: "string list \<Rightarrow> string" where
  "buffered ls = concat (map (\<lambda>l. l @ [CHR 0x0A]) ls)"

text \<open>
  The console at its start in the examples below: with the line editor and an empty
  history file.
\<close>

definition lineEditorStart :: session where
  "lineEditorStart = newJSRE (liner liner_AppendHistory) []"

section \<open>Properties\<close>

subsection \<open>Helper lemmas\<close>

lemma interactive_append:
  "interactive s (es @ es') =
     (case interactive s es of None \<Rightarrow> None | Some s' \<Rightarrow> interactive s' es')"
  by (induction es arbitrary: s) (simp_all split: option.splits)

lemma received_empty: "received [] True s = Some s"
  by (simp add: received_def)

lemma setIndent_fields:
  "indentCount (setIndent s) = netDepth (str s)"
  "str (setIndent s) = str s"
  "history (setIndent s) = history s"
  "prompter (setIndent s) = prompter s"
  "evaluated (setIndent s) = evaluated s"
  "ps1 (setIndent s) =
     (if netDepth (str s) \<le> 0 then ''> '' else JoinEmpty (netDepth (str s) * 2) ''..'' @ '' '')"
  by (simp_all add: setIndent_def netDepth_def Let_def)

lemma accumulate_open:
  assumes "0 < netDepth (str s @ input @ [CHR 0x0A])"
  shows "indentCount (accumulate input s) = netDepth (str s @ input @ [CHR 0x0A])"
    and "str (accumulate input s) = str s @ input @ [CHR 0x0A]"
    and "history (accumulate input s) = history s"
    and "prompter (accumulate input s) = prompter s"
    and "evaluated (accumulate input s) = evaluated s"
    and "ps1 (accumulate input s) =
           JoinEmpty (netDepth (str s @ input @ [CHR 0x0A]) * 2) ''..'' @ '' ''"
  using assms by (simp_all add: accumulate_def setIndent_fields Let_def)

lemma accumulate_submit:
  assumes "netDepth (str s @ input @ [CHR 0x0A]) \<le> 0"
  shows "indentCount (accumulate input s) = netDepth (str s @ input @ [CHR 0x0A])"
    and "str (accumulate input s) = []"
    and "history (accumulate input s) =
           (if 0 < length (hidepassword (str s @ input))
            then (case prompter s of
                    dumbterm \<Rightarrow> history s
                  | liner lr \<Rightarrow> lr (hidepassword (str s @ input)) (history s))
            else history s)"
    and "prompter (accumulate input s) = prompter s"
    and "evaluated (accumulate input s) = evaluated s @ [str s @ input @ [CHR 0x0A]]"
    and "ps1 (accumulate input s) = ''> ''"
  using assms
  by (simp_all add: accumulate_def setIndent_fields Let_def AppendHistory_def parseInput_def
      butlast_append split: prompter.splits)

lemma netDepth_Nil: "netDepth [] = 0"
  by (simp add: netDepth_def Count_def)

lemma accumulate_inv:
  "(indentCount (accumulate input s) \<le> 0
      \<longrightarrow> str (accumulate input s) = [] \<and> ps1 (accumulate input s) = ''> '')
   \<and> (0 < indentCount (accumulate input s)
        \<longrightarrow> indentCount (accumulate input s) = netDepth (str (accumulate input s))
            \<and> ps1 (accumulate input s)
                = JoinEmpty (indentCount (accumulate input s) * 2) ''..'' @ '' '')"
proof (cases "0 < netDepth (str s @ input @ [CHR 0x0A])")
  case True
  then show ?thesis by (simp add: accumulate_open)
next
  case False
  then have "netDepth (str s @ input @ [CHR 0x0A]) \<le> 0" by simp
  then show ?thesis by (simp add: accumulate_submit)
qed

lemma reachable_inv:
  assumes "reachable s"
  shows "(indentCount s \<le> 0 \<longrightarrow> str s = [] \<and> ps1 s = ''> '')
         \<and> (0 < indentCount s
              \<longrightarrow> indentCount s = netDepth (str s)
                  \<and> ps1 s = JoinEmpty (indentCount s * 2) ''..'' @ '' '')"
  using assms
proof (induction rule: reachable.induct)
  case (start loaded)
  show ?case by (simp add: newJSRE_def)
next
  case (step s e s')
  show ?case
  proof (cases e)
    case (Line input)
    with step.hyps(2) have "s' = s \<or> s' = accumulate input s"
      by (auto simp: received_def split: if_splits)
    then show ?thesis using step.IH accumulate_inv by auto
  next
    case PromptAborted
    with step.hyps(2) have "s' = resetPrompt s"
      by (simp add: received_def)
    then show ?thesis by (simp add: resetPrompt_def)
  next
    case InputClosed
    with step.hyps(2) show ?thesis by (simp add: received_def)
  next
    case Interrupt
    with step.hyps(2) show ?thesis by simp
  qed
qed

lemma netDepth_pos_nonempty: "0 < netDepth b \<Longrightarrow> b \<noteq> []"
  by (auto simp: netDepth_Nil)

lemma netDepth_append: "netDepth (a @ b) = netDepth a + netDepth b"
  by (simp add: netDepth_def Count_def)

lemma netDepth_exit: "netDepth (''exit'' @ [CHR 0x0A]) = 0"
  by (simp add: netDepth_def Count_def)

lemma buffered_simps:
  "buffered [] = []"
  "buffered (l # ls) = l @ [CHR 0x0A] @ buffered ls"
  by (simp_all add: buffered_def)

lemma buffered_append: "buffered (xs @ ys) = buffered xs @ buffered ys"
  by (simp add: buffered_def)

lemma continuation_run:
  assumes "\<forall>l\<in>set ls. l \<noteq> []"
    and "\<forall>k. 0 < k \<and> k \<le> length ls \<longrightarrow> 0 < netDepth (str s @ buffered (take k ls))"
    and "0 < indentCount s \<or> ls = [] \<or> hd ls \<noteq> ''exit''"
  shows "\<exists>s'. interactive s (map Line ls) = Some s'
           \<and> str s' = str s @ buffered ls
           \<and> evaluated s' = evaluated s \<and> history s' = history s
           \<and> (ls \<noteq> [] \<longrightarrow> indentCount s' = netDepth (str s @ buffered ls)
                \<and> ps1 s' = JoinEmpty (indentCount s' * 2) ''..'' @ '' '')"
  using assms
proof (induction ls arbitrary: s)
  case Nil
  show ?case by (simp add: buffered_simps)
next
  case (Cons l ls)
  let ?s1 = "accumulate l s"
  from Cons.prems(1) have l: "l \<noteq> []" by simp
  from Cons.prems(2) have "0 < netDepth (str s @ buffered (take 1 (l # ls)))"
    by (metis One_nat_def Suc_leI length_Cons less_Suc_eq_0_disj less_numeral_extra(1))
  then have pos: "0 < netDepth (str s @ l @ [CHR 0x0A])"
    by (simp add: buffered_simps)
  note o = accumulate_open [OF pos]
  from Cons.prems(3) have "\<not> (indentCount s \<le> 0 \<and> l = ''exit'')" by auto
  with l have st: "interactive_step s (Line l) = Some ?s1"
    by (auto simp: received_def)
  have p2: "\<forall>k. 0 < k \<and> k \<le> length ls \<longrightarrow> 0 < netDepth (str ?s1 @ buffered (take k ls))"
  proof (intro allI impI)
    fix k assume k: "0 < k \<and> k \<le> length ls"
    then have "0 < netDepth (str s @ buffered (take (Suc k) (l # ls)))"
      using Cons.prems(2) by (metis Suc_le_mono length_Cons zero_less_Suc)
    then show "0 < netDepth (str ?s1 @ buffered (take k ls))"
      by (simp add: o buffered_simps)
  qed
  have p3: "0 < indentCount ?s1 \<or> ls = [] \<or> hd ls \<noteq> ''exit''"
    using pos by (simp add: o)
  from Cons.prems(1) have p1: "\<forall>l\<in>set ls. l \<noteq> []" by simp
  from Cons.IH [OF p1 p2 p3] obtain s' where
    r: "interactive ?s1 (map Line ls) = Some s'"
       "str s' = str ?s1 @ buffered ls"
       "evaluated s' = evaluated ?s1" "history s' = history ?s1"
       "ls \<noteq> [] \<longrightarrow> indentCount s' = netDepth (str ?s1 @ buffered ls)
            \<and> ps1 s' = JoinEmpty (indentCount s' * 2) ''..'' @ '' ''"
    by blast
  have "ls = [] \<Longrightarrow> s' = ?s1" using r(1) by simp
  then have "indentCount s' = netDepth (str s @ buffered (l # ls))
            \<and> ps1 s' = JoinEmpty (indentCount s' * 2) ''..'' @ '' ''"
    using r(5) by (cases "ls = []") (simp_all add: o buffered_simps)
  with r st show ?case
    by (simp add: o buffered_simps)
qed

lemma scanBack_spec:
  "scanBack line k \<le> Suc k
   \<and> (\<forall>j. 1 \<le> j \<and> scanBack line k \<le> j \<and> j \<le> k \<longrightarrow> continues line j)
   \<and> (0 < scanBack line k \<longrightarrow> \<not> continues line (scanBack line k - 1))"
proof (induction k)
  case 0
  show ?case by simp
next
  case (Suc k)
  show ?case
  proof (cases "continues line (Suc k)")
    case True
    then have e: "scanBack line (Suc k) = scanBack line k" by simp
    have "continues line j" if "1 \<le> j \<and> scanBack line k \<le> j \<and> j \<le> Suc k" for j
      using that Suc True by (cases "j = Suc k") auto
    with Suc show ?thesis unfolding e by auto
  next
    case False
    then show ?thesis by auto
  qed
qed

lemma allMethods_eq:
  "allMethods module results methods = results @ map (\<lambda>method. module @ ''.'' @ method) methods"
  by (induction methods arbitrary: results) simp_all

lemma overModules_other:
  assumes "line \<notin> fst ` set cat"
  shows "overModules line results cat = results @ filter (\<lambda>m. HasPrefix m line) (map fst cat)"
  using assms
proof (induction cat arbitrary: results)
  case Nil
  show ?case by simp
next
  case (Cons entry cat)
  obtain module methods where e: "entry = (module, methods)" by (cases entry)
  with Cons.prems have "line \<noteq> module" and "line \<notin> fst ` set cat" by auto
  with Cons.IH show ?case by (simp add: e)
qed

lemma overModules_append:
  "overModules line results (xs @ ys) = overModules line (overModules line results xs) ys"
  by (induction xs arbitrary: results) auto

subsection \<open>Completion\<close>

text \<open>
  Claim C8. With the catalog that maps \<open>admin\<close> to the methods \<open>startRPC\<close>, \<open>stopRPC\<close>
  and \<open>peers\<close>, the keyword completer applied to \<open>admin.st\<close> returns exactly
  \<open>admin.startRPC\<close> and \<open>admin.stopRPC\<close>, in that order, and so never
  \<open>admin.peers\<close>. For an empty line, whatever the position, and for position 0, whatever
  the line, the completion entry point returns no suggestion.
\<close>

theorem keywordCompleter_admin_st:
  "keywordCompleter [(''admin'', [''startRPC'', ''stopRPC'', ''peers''])] ''admin.st''
     = [''admin.startRPC'', ''admin.stopRPC'']
   \<and> ''admin.peers''
       \<notin> set (keywordCompleter [(''admin'', [''startRPC'', ''stopRPC'', ''peers''])] ''admin.st'')
   \<and> apiWordCompleter loadedModulesMethods [] pos = Inr ([], [], [])
   \<and> apiWordCompleter loadedModulesMethods line 0 = Inr ([], [], [])"
proof -
  have k: "keywordCompleter [(''admin'', [''startRPC'', ''stopRPC'', ''peers''])] ''admin.st''
     = [''admin.startRPC'', ''admin.stopRPC'']"
    by (simp add: keywordCompleter_def Contains_def Split_def HasPrefix_def)
  show ?thesis
    unfolding k by (simp add: apiWordCompleter_def)
qed

text \<open>
  Claim C3, as the code has it. For a cursor position within a non-empty line, the scan
  walks backward from the cursor over the indices down to 1 and goes on over a dot, an
  ASCII letter, and a \<open>3\<close> that ends \<open>web3\<close>; it stops at the first character that is
  none of these, so at any other digit and at an underscore. The line is cut at the
  boundary \<open>i\<close> that the scan returns: the token handed to the keyword completer is the
  slice from \<open>i\<close> to the cursor, every character of it at an index of 1 or more
  continues the scan, and the character before a boundary other than 0 does not.
\<close>

theorem token_boundary_scan:
  assumes "0 < pos" and "pos \<le> int (length line)"
  shows "\<exists>i. i \<le> nat pos
           \<and> apiWordCompleter loadedModulesMethods line pos
               = Inr (take i line,
                      keywordCompleter loadedModulesMethods (drop i (take (nat pos) line)),
                      drop (nat pos) line)
           \<and> (\<forall>j. 1 \<le> j \<and> i \<le> j \<and> j < nat pos \<longrightarrow> continues line j)
           \<and> (0 < i \<longrightarrow> \<not> continues line (i - 1))"
proof -
  let ?k = "nat (pos - 1)"
  from assms have p: "nat pos = Suc ?k" and ne: "length line \<noteq> 0" by auto
  from assms have a: "apiWordCompleter loadedModulesMethods line pos
               = Inr (take (scanBack line ?k) line,
                      keywordCompleter loadedModulesMethods
                        (drop (scanBack line ?k) (take (nat pos) line)),
                      drop (nat pos) line)"
    by (auto simp: apiWordCompleter_def Let_def)
  from scanBack_spec [of line ?k] a show ?thesis
    unfolding p by (intro exI [of _ "scanBack line ?k"]) auto
qed

text \<open>The cursor at the end of \<open>var x = admin.st\<close>: the token is \<open>admin.st\<close>.\<close>

theorem token_boundary_scan_witness:
  "(\<exists>i. i \<le> nat 16
      \<and> apiWordCompleter [(''admin'', [''startRPC'', ''stopRPC'', ''peers''])] ''var x = admin.st'' 16
          = Inr (take i ''var x = admin.st'',
                 keywordCompleter [(''admin'', [''startRPC'', ''stopRPC'', ''peers''])]
                   (drop i (take (nat 16) ''var x = admin.st'')),
                 drop (nat 16) ''var x = admin.st''))
   \<and> apiWordCompleter [(''admin'', [''startRPC'', ''stopRPC'', ''peers''])] ''var x = admin.st'' 16
       = Inr (''var x = '', [''admin.startRPC'', ''admin.stopRPC''], [])"
proof -
  have h1: "0 < (16::int)" and h2: "16 \<le> int (length ''var x = admin.st'')"
    by simp_all
  have s: "scanBack ''var x = admin.st'' 15 = 8"
    by code_simp
  have e: "apiWordCompleter [(''admin'', [''startRPC'', ''stopRPC'', ''peers''])] ''var x = admin.st'' 16
       = Inr (''var x = '', [''admin.startRPC'', ''admin.stopRPC''], [])"
    by (simp add: apiWordCompleter_def s keywordCompleter_def Contains_def
        Split_def HasPrefix_def)
  from token_boundary_scan [OF h1 h2, of "[(''admin'', [''startRPC'', ''stopRPC'', ''peers''])]"]
  have "\<exists>i. i \<le> nat 16
      \<and> apiWordCompleter [(''admin'', [''startRPC'', ''stopRPC'', ''peers''])] ''var x = admin.st'' 16
          = Inr (take i ''var x = admin.st'',
                 keywordCompleter [(''admin'', [''startRPC'', ''stopRPC'', ''peers''])]
                   (drop i (take (nat 16) ''var x = admin.st'')),
                 drop (nat 16) ''var x = admin.st'')"
    by blast
  with e show ?thesis by blast
qed

text \<open>
  An underscore and a digit end the scan: with the cursor at the end of \<open>a_b\<close> and of
  \<open>a1b\<close>, the completer is handed \<open>b\<close>, not the identifier.
\<close>

theorem token_boundary_scan_counterexample:
  "apiWordCompleter [(''a_b'', [''x'']), (''b'', [''y''])] ''a_b'' 3 = Inr (''a_'', [''b.y''], [])
   \<and> keywordCompleter [(''a_b'', [''x'']), (''b'', [''y''])] ''a_b'' = [''a_b.x'']
   \<and> apiWordCompleter [(''a1b'', [''x'']), (''b'', [''y''])] ''a1b'' 3 = Inr (''a1'', [''b.y''], [])
   \<and> keywordCompleter [(''a1b'', [''x'']), (''b'', [''y''])] ''a1b'' = [''a1b.x'']"
proof -
  have s: "scanBack ''a_b'' 2 = 2" "scanBack ''a1b'' 2 = 2"
    by code_simp+
  show ?thesis
    by (simp add: apiWordCompleter_def s keywordCompleter_def Contains_def HasPrefix_def)
qed

text \<open>
  Claim C4, as the code has it. For a token without a dot that is the name of a module
  of the catalog, the suggestions are all the methods of that module in their order,
  each rendered with the module prefix, as \<open>module.method\<close>; around them, in the order
  in which the catalog is visited, stand the names of the other modules that the token
  is a prefix of.
\<close>

theorem full_module_name_methods:
  assumes "\<not> Contains line CHR ''.''"
    and "distinct (map fst loadedModulesMethods)"
    and "loadedModulesMethods = before @ (line, methods) # after"
  shows "keywordCompleter loadedModulesMethods line
           = filter (\<lambda>m. HasPrefix m line) (map fst before)
             @ map (\<lambda>method. line @ ''.'' @ method) methods
             @ filter (\<lambda>m. HasPrefix m line) (map fst after)"
proof -
  from assms(2,3) have b: "line \<notin> fst ` set before" and a: "line \<notin> fst ` set after"
    by auto
  have "keywordCompleter loadedModulesMethods line
          = overModules line [] (before @ (line, methods) # after)"
    using assms(1,3) by (simp add: keywordCompleter_def)
  also have "\<dots> = overModules line
                     (allMethods line (overModules line [] before) methods) after"
    by (simp add: overModules_append)
  finally show ?thesis
    by (simp add: overModules_other [OF b] overModules_other [OF a] allMethods_eq)
qed

theorem full_module_name_methods_witness:
  "keywordCompleter
     [(''exp'', [''accounts'']), (''admin'', [''startRPC'', ''stopRPC'', ''peers'']),
      (''administrator'', [])] ''admin''
   = [''admin.startRPC'', ''admin.stopRPC'', ''admin.peers'', ''administrator'']"
proof -
  have h1: "\<not> Contains ''admin'' CHR ''.''"
    by (simp add: Contains_def)
  have h2: "distinct (map fst [(''exp'', [''accounts'']),
      (''admin'', [''startRPC'', ''stopRPC'', ''peers'']), (''administrator'', [])])"
    by simp
  have h3: "[(''exp'', [''accounts'']), (''admin'', [''startRPC'', ''stopRPC'', ''peers'']),
      (''administrator'', [])]
      = [(''exp'', [''accounts''])] @ (''admin'', [''startRPC'', ''stopRPC'', ''peers''])
          # [(''administrator'', [])]"
    by simp
  show ?thesis
    unfolding full_module_name_methods [OF h1 h2 h3] by (simp add: HasPrefix_def)
qed

text \<open>The token \<open>admin\<close>: the methods come with the prefix \<open>admin.\<close>, not bare.\<close>

theorem full_module_name_methods_counterexample:
  "keywordCompleter [(''admin'', [''startRPC'', ''stopRPC'', ''peers''])] ''admin''
     = [''admin.startRPC'', ''admin.stopRPC'', ''admin.peers'']
   \<and> keywordCompleter [(''admin'', [''startRPC'', ''stopRPC'', ''peers''])] ''admin''
     \<noteq> [''startRPC'', ''stopRPC'', ''peers'']"
  by (simp add: keywordCompleter_def Contains_def)

subsection \<open>The bridge object\<close>

text \<open>
  Claim C7. The two entry points of the bridge, \<open>send\<close> and \<open>sendAsync\<close>, are bound to
  the same function: for every call and every state of the backend, calling one gives
  the result and the new state that calling the other gives, namely those of \<open>Send\<close>.
\<close>

theorem send_sendAsync_same:
  "jethObj Send ''send'' = Some Send \<and> jethObj Send ''sendAsync'' = Some Send
   \<and> invoke (jethObj Send) ''send'' call backend = Some (Send call backend)
   \<and> invoke (jethObj Send) ''sendAsync'' call backend
       = invoke (jethObj Send) ''send'' call backend"
  by (simp add: jethObj_def invoke_def)

subsection \<open>The frontend hooks\<close>

text \<open>The other hook, \<open>UnlockAccount\<close>, does deny when its prompt returns an error.\<close>

lemma UnlockAccount_denies_on_prompt_error:
  assumes "snd (fst (PasswordPrompt ''Passphrase: ''
             (t\<lparr>stdout := stdout t @ ''Please unlock account '' @ hexaddr @ ''.'' @ [CHR 0x0A]\<rparr>)))
           = Some e"
  shows "fst (UnlockAccount PasswordPrompt Unlock hexaddr t) = False"
  using assms by (auto simp: UnlockAccount_def Let_def split: prod.splits)

text \<open>
  Claim C6. With \<open>NatSpec\<close> disabled, \<open>ConfirmTransaction\<close> returns true and neither
  prints nor reads. With \<open>NatSpec\<close> enabled, its result is whether the answer of the
  prompt, spaces trimmed, begins with \<open>y\<close>; the error of the prompt is dropped. So an
  error of the prompt read is not a denial: on a standard input that ends after \<open>y\<close>
  without a line feed, \<open>dumbterm.Prompt\<close> returns \<open>y\<close> together with \<open>io.EOF\<close>,
  and \<open>ConfirmTransaction\<close> returns true.
\<close>

theorem ConfirmTransaction_approves_on_prompt_error:
  "ConfirmTransaction False Prompt notice t = (True, t)
   \<and> fst (ConfirmTransaction True Prompt notice t)
       = HasPrefix (Trim (fst (fst (Prompt ''Confirm Transaction [y/n]''
                                     (t\<lparr>stdout := stdout t @ notice @ [CHR 0x0A]\<rparr>))))) ''y''
   \<and> dumbterm_Prompt ''Confirm Transaction [y/n]'' \<lparr>stdin = ''y'', stdout = []\<rparr>
       = ((''y'', Some EOF), \<lparr>stdin = [], stdout = ''Confirm Transaction [y/n]''\<rparr>)
   \<and> fst (ConfirmTransaction True dumbterm_Prompt ''notice'' \<lparr>stdin = ''y'', stdout = []\<rparr>)
       = True"
proof -
  have a: "ConfirmTransaction False Prompt notice t = (True, t)"
    by (simp add: ConfirmTransaction_def)
  have b: "fst (ConfirmTransaction True Prompt notice t)
       = HasPrefix (Trim (fst (fst (Prompt ''Confirm Transaction [y/n]''
                                     (t\<lparr>stdout := stdout t @ notice @ [CHR 0x0A]\<rparr>))))) ''y''"
    by (simp add: ConfirmTransaction_def Let_def split: prod.splits)
  have c: "dumbterm_Prompt ''Confirm Transaction [y/n]'' \<lparr>stdin = ''y'', stdout = []\<rparr>
       = ((''y'', Some EOF), \<lparr>stdin = [], stdout = ''Confirm Transaction [y/n]''\<rparr>)"
    by (simp add: dumbterm_Prompt_def ReadString_def TrimSuffix_def Let_def)
  have d: "fst (ConfirmTransaction True dumbterm_Prompt ''notice'' \<lparr>stdin = ''y'', stdout = []\<rparr>)
       = True"
    by (simp add: ConfirmTransaction_def dumbterm_Prompt_def ReadString_def TrimSuffix_def
        Trim_def HasPrefix_def Let_def)
  from a b c d show ?thesis by blast
qed

subsection \<open>The interactive loop\<close>

text \<open>
  Claim C9. An empty input line is ignored in every state, in particular at a positive
  indent depth: the loop goes on with the same buffer, depth, prompt, history and
  submitted statements. So a run in which an empty line is typed anywhere ends as the
  run without that line does.
\<close>

theorem empty_line_ignored:
  "interactive_step s (Line []) = Some s
   \<and> interactive s (es @ Line [] # es') = interactive s (es @ es')"
proof -
  have "interactive s (es @ Line [] # es') = interactive s (es @ es')"
    unfolding interactive_append by (cases "interactive s es") (simp_all add: received_empty)
  then show ?thesis by (simp add: received_empty)
qed

text \<open>
  Claim C10. Wherever the loop waits for its next input, the statement buffer is
  non-empty exactly when the indent depth is strictly positive; and every round of the
  loop that goes on (a line appended and the depth recomputed, a statement submitted and
  the buffer cleared, the reset after an aborted prompt) ends in a state of which this
  holds again.
\<close>

theorem buffer_nonempty_iff_depth_positive:
  assumes "reachable s"
  shows "(str s \<noteq> [] \<longleftrightarrow> 0 < indentCount s)
         \<and> (\<forall>e s'. interactive_step s e = Some s' \<longrightarrow> (str s' \<noteq> [] \<longleftrightarrow> 0 < indentCount s'))"
proof -
  have inv: "str t \<noteq> [] \<longleftrightarrow> 0 < indentCount t" if "reachable t" for t
    using reachable_inv [OF that] netDepth_pos_nonempty [of "str t"]
    by (cases "0 < indentCount t") auto
  show ?thesis
    using inv [OF assms] inv [OF reachable.step [OF assms]] by blast
qed

theorem buffer_nonempty_iff_depth_positive_witness:
  "reachable (accumulate ''{'' lineEditorStart)
   \<and> str (accumulate ''{'' lineEditorStart) = [CHR ''{'', CHR 0x0A]
   \<and> indentCount (accumulate ''{'' lineEditorStart) = 1
   \<and> interactive_step (accumulate ''{'' lineEditorStart) (Line ''}'')
       = Some (accumulate ''}'' (accumulate ''{'' lineEditorStart))
   \<and> str (accumulate ''}'' (accumulate ''{'' lineEditorStart)) = []
   \<and> indentCount (accumulate ''}'' (accumulate ''{'' lineEditorStart)) = 0"
proof -
  have o: "str (accumulate ''{'' lineEditorStart) = [CHR ''{'', CHR 0x0A]"
       "indentCount (accumulate ''{'' lineEditorStart) = 1"
    by (simp_all add: accumulate_def setIndent_def Count_def newJSRE_def lineEditorStart_def
        Let_def)
  have "interactive_step lineEditorStart (Line ''{'') = Some (accumulate ''{'' lineEditorStart)"
    by (simp add: received_def)
  then have r: "reachable (accumulate ''{'' lineEditorStart)"
    unfolding lineEditorStart_def by (rule reachable.step [OF reachable.start])
  have st: "interactive_step (accumulate ''{'' lineEditorStart) (Line ''}'')
       = Some (accumulate ''}'' (accumulate ''{'' lineEditorStart))"
    by (simp add: received_def o)
  have c: "indentCount (accumulate ''}'' (accumulate ''{'' lineEditorStart)) = 0"
    by (simp add: accumulate_submit o netDepth_def Count_def)
  have "str (accumulate ''}'' (accumulate ''{'' lineEditorStart)) \<noteq> [] \<longleftrightarrow>
          0 < indentCount (accumulate ''}'' (accumulate ''{'' lineEditorStart))"
    using buffer_nonempty_iff_depth_positive [OF r] st by blast
  with c have "str (accumulate ''}'' (accumulate ''{'' lineEditorStart)) = []"
    by simp
  with st c o r show ?thesis
    by blast
qed

text \<open>
  Claim C5. In every state in which the loop can wait, an input line ends the session
  if and only if it is exactly \<open>exit\<close>, the indent depth is at most 0 and the buffer is
  empty. In every other such state the line \<open>exit\<close> is ordinary input: it is appended
  to the buffer, followed by a line feed, and nothing else changes.
\<close>

theorem exit_ends_session_iff:
  assumes "reachable s"
  shows "(interactive_step s (Line input) = None
            \<longleftrightarrow> input = ''exit'' \<and> indentCount s \<le> 0 \<and> str s = [])
         \<and> (\<not> (indentCount s \<le> 0 \<and> str s = [])
              \<longrightarrow> interactive_step s (Line ''exit'')
                    = Some (s\<lparr>str := str s @ ''exit'' @ [CHR 0x0A]\<rparr>))"
proof -
  note inv = reachable_inv [OF assms]
  have a: "interactive_step s (Line input) = None
            \<longleftrightarrow> input = ''exit'' \<and> indentCount s \<le> 0 \<and> str s = []"
    using inv by (auto simp: received_def)
  have b: "interactive_step s (Line ''exit'') = Some (s\<lparr>str := str s @ ''exit'' @ [CHR 0x0A]\<rparr>)"
    if "\<not> (indentCount s \<le> 0 \<and> str s = [])"
  proof -
    from that inv have pos: "0 < indentCount s" by auto
    with inv have d: "indentCount s = netDepth (str s)"
      and p: "ps1 s = JoinEmpty (indentCount s * 2) ''..'' @ '' ''" by auto
    have n: "netDepth (str s @ ''exit'' @ [CHR 0x0A]) = indentCount s"
      using netDepth_append [of "str s" "''exit'' @ [CHR 0x0A]"] netDepth_exit d by simp
    have "accumulate ''exit'' s = s\<lparr>str := str s @ ''exit'' @ [CHR 0x0A]\<rparr>"
      using pos n accumulate_open [of s "''exit''"] p
      by (intro session.equality) simp_all
    with pos show ?thesis by (simp add: received_def)
  qed
  from a b show ?thesis by blast
qed

text \<open>The state after the line \<open>{\<close> is such a state: there \<open>exit\<close> is appended.\<close>

theorem exit_ends_session_iff_witness:
  "reachable (accumulate ''{'' lineEditorStart)
   \<and> \<not> (indentCount (accumulate ''{'' lineEditorStart) \<le> 0 \<and> str (accumulate ''{'' lineEditorStart) = [])
   \<and> interactive_step (accumulate ''{'' lineEditorStart) (Line ''exit'')
       = Some ((accumulate ''{'' lineEditorStart)\<lparr>str := [CHR ''{'', CHR 0x0A] @ ''exit'' @ [CHR 0x0A]\<rparr>)
   \<and> interactive_step (accumulate ''{'' lineEditorStart) (Line ''exit'') \<noteq> None"
proof -
  have o: "str (accumulate ''{'' lineEditorStart) = [CHR ''{'', CHR 0x0A]"
       "indentCount (accumulate ''{'' lineEditorStart) = 1"
    by (simp_all add: accumulate_def setIndent_def Count_def newJSRE_def lineEditorStart_def
        Let_def)
  have "interactive_step lineEditorStart (Line ''{'') = Some (accumulate ''{'' lineEditorStart)"
    by (simp add: received_def)
  then have r: "reachable (accumulate ''{'' lineEditorStart)"
    unfolding lineEditorStart_def by (rule reachable.step [OF reachable.start])
  from exit_ends_session_iff [OF r, of "''exit''"] o r show ?thesis
    by simp
qed

text \<open>
  Claim C2, as the code has it. The loop submits at a depth of 0 or below, and the single
  line \<open>exit\<close> at depth 0 ends the session. So: from an empty buffer at a depth of at
  most 0, for every non-empty sequence of non-empty lines other than the single line
  \<open>exit\<close>, whose cumulative bracket balance is strictly positive after every earlier
  line and zero after the final line, the loop waits at a positive depth with the
  continuation prompt after every earlier line, nothing being submitted, and submits the
  whole buffer once, upon the final line.
\<close>

theorem flush_once_on_final_line:
  assumes "str s = []" and "indentCount s \<le> 0"
    and "ls \<noteq> []" and "\<forall>l\<in>set ls. l \<noteq> []" and "ls \<noteq> [''exit'']"
    and "\<forall>k. 0 < k \<and> k < length ls \<longrightarrow> 0 < netDepth (buffered (take k ls))"
    and "netDepth (buffered ls) = 0"
  shows "(\<forall>k. 0 < k \<and> k < length ls \<longrightarrow>
            (\<exists>s'. interactive s (map Line (take k ls)) = Some s'
               \<and> 0 < indentCount s' \<and> ps1 s' = JoinEmpty (indentCount s' * 2) ''..'' @ '' ''
               \<and> str s' = buffered (take k ls) \<and> evaluated s' = evaluated s))
         \<and> (\<exists>s'. interactive s (map Line ls) = Some s'
               \<and> indentCount s' = 0 \<and> ps1 s' = ''> ''
               \<and> str s' = [] \<and> evaluated s' = evaluated s @ [buffered ls])"
proof -
  have first: "hd ls \<noteq> ''exit''"
  proof
    assume e: "hd ls = ''exit''"
    show False
    proof (cases "length ls = 1")
      case True
      with e assms(5) show False by (cases ls) auto
    next
      case False
      with assms(3) have "0 < (1::nat) \<and> 1 < length ls" by (cases ls) auto
      with assms(6) have "0 < netDepth (buffered (take 1 ls))" by blast
      with e assms(3) show False
        by (cases ls) (simp_all add: buffered_simps netDepth_def Count_def)
    qed
  qed
  have run: "\<exists>s'. interactive s (map Line (take k ls)) = Some s'
           \<and> str s' = buffered (take k ls)
           \<and> evaluated s' = evaluated s \<and> history s' = history s
           \<and> (take k ls \<noteq> [] \<longrightarrow> indentCount s' = netDepth (buffered (take k ls))
                \<and> ps1 s' = JoinEmpty (indentCount s' * 2) ''..'' @ '' '')"
    if k: "k < length ls" for k
  proof -
    have a: "\<forall>l\<in>set (take k ls). l \<noteq> []"
      using assms(4) by (meson in_set_takeD)
    have b: "\<forall>j. 0 < j \<and> j \<le> length (take k ls)
               \<longrightarrow> 0 < netDepth (str s @ buffered (take j (take k ls)))"
    proof (intro allI impI)
      fix j assume j: "0 < j \<and> j \<le> length (take k ls)"
      with k have "0 < j \<and> j < length ls" and "min j k = j" by auto
      with assms(6) show "0 < netDepth (str s @ buffered (take j (take k ls)))"
        by (simp add: assms(1))
    qed
    have c: "0 < indentCount s \<or> take k ls = [] \<or> hd (take k ls) \<noteq> ''exit''"
      using first by (cases k) (simp_all add: hd_take)
    from continuation_run [OF a b c] show ?thesis
      by (simp add: assms(1))
  qed
  have part1: "\<exists>s'. interactive s (map Line (take k ls)) = Some s'
               \<and> 0 < indentCount s' \<and> ps1 s' = JoinEmpty (indentCount s' * 2) ''..'' @ '' ''
               \<and> str s' = buffered (take k ls) \<and> evaluated s' = evaluated s"
    if k: "0 < k \<and> k < length ls" for k
  proof -
    from k have ne: "take k ls \<noteq> []" by (cases ls) auto
    from k assms(6) have "0 < netDepth (buffered (take k ls))" by blast
    with run [of k] k ne show ?thesis by auto
  qed
  have part2: "\<exists>s'. interactive s (map Line ls) = Some s'
               \<and> indentCount s' = 0 \<and> ps1 s' = ''> ''
               \<and> str s' = [] \<and> evaluated s' = evaluated s @ [buffered ls]"
  proof -
    let ?n = "length ls - 1"
    from assms(3) have n: "?n < length ls" by simp
    from assms(3) have split: "ls = take ?n ls @ [last ls]"
      by (metis append_butlast_last_id butlast_conv_take)
    from run [OF n] obtain s1 where
      r: "interactive s (map Line (take ?n ls)) = Some s1"
         "str s1 = buffered (take ?n ls)" "evaluated s1 = evaluated s"
         "take ?n ls \<noteq> [] \<longrightarrow> indentCount s1 = netDepth (buffered (take ?n ls))"
      by blast
    have lne: "last ls \<noteq> []" using assms(3,4) by simp
    have full: "str s1 @ last ls @ [CHR 0x0A] = buffered ls"
      using split r(2) by (metis append_Nil2 buffered_append buffered_simps)
    have noexit: "\<not> (indentCount s1 \<le> 0 \<and> last ls = ''exit'')"
    proof (cases "take ?n ls = []")
      case True
      with split have "ls = [last ls]" by (metis append_Nil)
      with assms(5) show ?thesis by auto
    next
      case False
      then have "0 < ?n" by (cases ?n) auto
      with n assms(6) have "0 < netDepth (buffered (take ?n ls))" by blast
      with r(4) False show ?thesis by simp
    qed
    with lne have st: "interactive_step s1 (Line (last ls)) = Some (accumulate (last ls) s1)"
      by (auto simp: received_def)
    have le: "netDepth (str s1 @ last ls @ [CHR 0x0A]) \<le> 0"
      using full assms(7) by simp
    note sub = accumulate_submit [OF le]
    have "interactive s (map Line ls) = interactive s (map Line (take ?n ls) @ [Line (last ls)])"
      using split by (metis list.simps(8) list.simps(9) map_append)
    also have "\<dots> = Some (accumulate (last ls) s1)"
      using r(1) st by (simp add: interactive_append)
    finally show ?thesis
      using sub full assms(7) r(3) by simp
  qed
  from part1 part2 show ?thesis by blast
qed

text \<open>The lines \<open>{\<close> and \<open>}\<close>.\<close>

theorem flush_once_on_final_line_witness:
  "(\<exists>s'. interactive lineEditorStart [Line ''{''] = Some s'
       \<and> 0 < indentCount s' \<and> ps1 s' = JoinEmpty (indentCount s' * 2) ''..'' @ '' ''
       \<and> str s' = buffered [''{''] \<and> evaluated s' = [])
   \<and> (\<exists>s'. interactive lineEditorStart [Line ''{'', Line ''}''] = Some s'
       \<and> indentCount s' = 0 \<and> ps1 s' = ''> ''
       \<and> str s' = [] \<and> evaluated s' = [buffered [''{'', ''}'']])"
proof -
  have h1: "str lineEditorStart = []" and h2: "indentCount lineEditorStart \<le> 0"
    and ev: "evaluated lineEditorStart = []"
    by (simp_all add: newJSRE_def lineEditorStart_def)
  have h3: "[''{'', ''}''] \<noteq> []" and h4: "\<forall>l\<in>set [''{'', ''}'']. l \<noteq> []"
    and h5: "[''{'', ''}''] \<noteq> [''exit'']"
    by simp_all
  have h6: "\<forall>k. 0 < k \<and> k < length [''{'', ''}'']
              \<longrightarrow> 0 < netDepth (buffered (take k [''{'', ''}'']))"
  proof (intro allI impI)
    fix k :: nat assume "0 < k \<and> k < length [''{'', ''}'']"
    then have "k = 1" by simp
    then show "0 < netDepth (buffered (take k [''{'', ''}'']))"
      by (simp add: buffered_def netDepth_def Count_def)
  qed
  have h7: "netDepth (buffered [''{'', ''}'']) = 0"
    by (simp add: buffered_def netDepth_def Count_def)
  note t = flush_once_on_final_line [OF h1 h2 h3 h4 h5 h6 h7]
  have k: "0 < (1::nat) \<and> 1 < length [''{'', ''}'']" by simp
  from t have "\<exists>s'. interactive lineEditorStart (map Line (take 1 [''{'', ''}''])) = Some s'
       \<and> 0 < indentCount s' \<and> ps1 s' = JoinEmpty (indentCount s' * 2) ''..'' @ '' ''
       \<and> str s' = buffered (take 1 [''{'', ''}'']) \<and> evaluated s' = evaluated lineEditorStart"
    using k by blast
  moreover from t have "\<exists>s'. interactive lineEditorStart (map Line [''{'', ''}'']) = Some s'
       \<and> indentCount s' = 0 \<and> ps1 s' = ''> ''
       \<and> str s' = [] \<and> evaluated s' = evaluated lineEditorStart @ [buffered [''{'', ''}'']]"
    by blast
  ultimately show ?thesis
    by (simp add: ev)
qed

text \<open>
  The balance of the lines \<open>)\<close> and \<open>(\<close> is zero only after the second, and the
  loop submits the first alone and waits at depth 1 after the second. The balance of the
  single line \<open>exit\<close> is zero, and the loop returns without submitting it.
\<close>

theorem flush_once_on_final_line_counterexample:
  "netDepth (buffered ['')'']) = - 1
   \<and> netDepth (buffered ['')'', ''('']) = 0
   \<and> interactive lineEditorStart [Line '')'']
       = Some \<lparr>indentCount = - 1, str = [], ps1 = ''> '',
               prompter = liner liner_AppendHistory, history = ['')''],
               evaluated = [buffered ['')'']]\<rparr>
   \<and> interactive lineEditorStart [Line '')'', Line ''('']
       = Some \<lparr>indentCount = 1, str = buffered [''(''], ps1 = ''.. '',
               prompter = liner liner_AppendHistory, history = ['')''],
               evaluated = [buffered ['')'']]\<rparr>
   \<and> netDepth (buffered [''exit'']) = 0
   \<and> interactive lineEditorStart [Line ''exit''] = None"
  by (simp add: buffered_def netDepth_def Count_def newJSRE_def lineEditorStart_def
      received_def accumulate_def setIndent_def Let_def hidepassword_def
      passwordRegexp_here_def HasPrefix_def AppendHistory_def liner_AppendHistory_def
      HistoryLimit_def parseInput_def JoinEmpty_def)

subsection \<open>History\<close>

text \<open>
  Claim C1, as the code has it. A line that completes a statement (a non-empty line, not
  the \<open>exit\<close> that ends the session, that brings the depth of the buffer to 0 or below)
  hands the statement to evaluation and checks it, without its final line feed, against
  the password pattern. A statement that does not match is passed verbatim, once, to the
  \<open>AppendHistory\<close> of the prompter: the line editor makes its history of it with its own
  method, the \<open>dumbterm\<close> stores nothing. For a statement that matches, the guard
  \<open>len(hist) > 0\<close> skips \<open>AppendHistory\<close>: the history stays as it was, and no entry,
  empty or not, is produced.
\<close>

theorem history_entry_unless_sensitive:
  assumes "input \<noteq> []"
    and "\<not> (indentCount s \<le> 0 \<and> input = ''exit'')"
    and "netDepth (str s @ input @ [CHR 0x0A]) \<le> 0"
  shows "\<exists>s'. interactive_step s (Line input) = Some s'
           \<and> evaluated s' = evaluated s @ [str s @ input @ [CHR 0x0A]]
           \<and> prompter s' = prompter s
           \<and> history s' =
               (if passwordRegexp_MatchString (str s @ input) then history s
                else case prompter s of
                       dumbterm \<Rightarrow> history s
                     | liner lr \<Rightarrow> lr (str s @ input) (history s))"
proof -
  from assms(1,2) have st: "interactive_step s (Line input) = Some (accumulate input s)"
    by (auto simp: received_def)
  from assms(1) have h: "hidepassword (str s @ input)
        = (if passwordRegexp_MatchString (str s @ input) then [] else str s @ input)"
    and l: "0 < length (hidepassword (str s @ input))
        \<longleftrightarrow> \<not> passwordRegexp_MatchString (str s @ input)"
    by (simp_all add: hidepassword_def passwordRepl_def)
  note sub = accumulate_submit [OF assms(3)]
  have "history (accumulate input s) =
               (if passwordRegexp_MatchString (str s @ input) then history s
                else case prompter s of
                       dumbterm \<Rightarrow> history s
                     | liner lr \<Rightarrow> lr (str s @ input) (history s))"
    unfolding sub(3) l by (simp add: h split: prompter.splits)
  with st sub(4,5) show ?thesis by simp
qed

text \<open>
  The statement \<open>exp.blockNumber\<close>: the line editor records it, the \<open>dumbterm\<close>
  records nothing, and the line editor does not record it a second time in a row.
\<close>

theorem history_entry_unless_sensitive_witness:
  "(\<exists>s'. interactive_step lineEditorStart (Line ''exp.blockNumber'') = Some s'
      \<and> evaluated s' = [''exp.blockNumber'' @ [CHR 0x0A]]
      \<and> prompter s' = liner liner_AppendHistory
      \<and> history s' = [''exp.blockNumber''])
   \<and> (\<exists>s'. interactive_step (newJSRE dumbterm []) (Line ''exp.blockNumber'') = Some s'
      \<and> evaluated s' = [''exp.blockNumber'' @ [CHR 0x0A]]
      \<and> prompter s' = dumbterm
      \<and> history s' = [])
   \<and> (\<exists>s'. interactive_step (accumulate ''exp.blockNumber'' lineEditorStart)
             (Line ''exp.blockNumber'') = Some s'
      \<and> evaluated s' = [''exp.blockNumber'' @ [CHR 0x0A], ''exp.blockNumber'' @ [CHR 0x0A]]
      \<and> prompter s' = liner liner_AppendHistory
      \<and> history s' = [''exp.blockNumber''])"
proof -
  have m: "\<not> passwordRegexp_MatchString ''exp.blockNumber''"
    by (simp add: passwordRegexp_here_def HasPrefix_def)
  have hp: "hidepassword ''exp.blockNumber'' = ''exp.blockNumber''"
    using m by (simp add: hidepassword_def)
  have ne: "''exp.blockNumber'' \<noteq> []" by simp
  have d: "netDepth (''exp.blockNumber'' @ [CHR 0x0A]) \<le> 0"
    by (simp add: netDepth_def Count_def)
  have s0: "str lineEditorStart = []" "indentCount lineEditorStart = 0"
    "prompter lineEditorStart = liner liner_AppendHistory"
    "history lineEditorStart = []" "evaluated lineEditorStart = []"
    by (simp_all add: lineEditorStart_def newJSRE_def)
  have d0: "str (newJSRE dumbterm []) = []" "indentCount (newJSRE dumbterm []) = 0"
    "prompter (newJSRE dumbterm []) = dumbterm"
    "history (newJSRE dumbterm []) = []" "evaluated (newJSRE dumbterm []) = []"
    by (simp_all add: newJSRE_def)
  have a1: "netDepth (str lineEditorStart @ ''exp.blockNumber'' @ [CHR 0x0A]) \<le> 0"
    using d by (simp add: s0)
  have s1: "str (accumulate ''exp.blockNumber'' lineEditorStart) = []"
    "indentCount (accumulate ''exp.blockNumber'' lineEditorStart) \<le> 0"
    "prompter (accumulate ''exp.blockNumber'' lineEditorStart) = liner liner_AppendHistory"
    "history (accumulate ''exp.blockNumber'' lineEditorStart) = [''exp.blockNumber'']"
    "evaluated (accumulate ''exp.blockNumber'' lineEditorStart) = [''exp.blockNumber'' @ [CHR 0x0A]]"
    using a1
    by (simp_all add: accumulate_submit [OF a1] s0 hp liner_AppendHistory_def HistoryLimit_def)
  have e1: "\<not> (indentCount lineEditorStart \<le> 0 \<and> ''exp.blockNumber'' = ''exit'')"
    and e2: "\<not> (indentCount (newJSRE dumbterm []) \<le> 0 \<and> ''exp.blockNumber'' = ''exit'')"
    and e3: "\<not> (indentCount (accumulate ''exp.blockNumber'' lineEditorStart) \<le> 0
               \<and> ''exp.blockNumber'' = ''exit'')"
    by simp_all
  have a2: "netDepth (str (newJSRE dumbterm []) @ ''exp.blockNumber'' @ [CHR 0x0A]) \<le> 0"
    using d by (simp add: d0)
  have a3: "netDepth (str (accumulate ''exp.blockNumber'' lineEditorStart)
               @ ''exp.blockNumber'' @ [CHR 0x0A]) \<le> 0"
    using d by (simp add: s1)
  from history_entry_unless_sensitive [OF ne e1 a1]
  have w1: "\<exists>s'. interactive_step lineEditorStart (Line ''exp.blockNumber'') = Some s'
      \<and> evaluated s' = [''exp.blockNumber'' @ [CHR 0x0A]]
      \<and> prompter s' = liner liner_AppendHistory
      \<and> history s' = [''exp.blockNumber'']"
    by (simp add: s0 m liner_AppendHistory_def HistoryLimit_def
        del: passwordRegexp_MatchString.simps)
  from history_entry_unless_sensitive [OF ne e2 a2]
  have w2: "\<exists>s'. interactive_step (newJSRE dumbterm []) (Line ''exp.blockNumber'') = Some s'
      \<and> evaluated s' = [''exp.blockNumber'' @ [CHR 0x0A]]
      \<and> prompter s' = dumbterm
      \<and> history s' = []"
    by (simp add: d0 m del: passwordRegexp_MatchString.simps)
  from history_entry_unless_sensitive [OF ne e3 a3]
  have w3: "\<exists>s'. interactive_step (accumulate ''exp.blockNumber'' lineEditorStart)
             (Line ''exp.blockNumber'') = Some s'
      \<and> evaluated s' = [''exp.blockNumber'' @ [CHR 0x0A], ''exp.blockNumber'' @ [CHR 0x0A]]
      \<and> prompter s' = liner liner_AppendHistory
      \<and> history s' = [''exp.blockNumber'']"
    by (simp add: s1 m liner_AppendHistory_def HistoryLimit_def
        del: passwordRegexp_MatchString.simps)
  from w1 w2 w3 show ?thesis by blast
qed

text \<open>
  A statement that unlocks an account is evaluated, and the history of the line editor
  stays empty: it does not gain the empty entry that \<open>AppendHistory\<close> would have made
  of the empty string.
\<close>

theorem sensitive_statement_counterexample:
  "interactive_step lineEditorStart (Line ''personal.unlockAccount(a, b)'')
     = Some (accumulate ''personal.unlockAccount(a, b)'' lineEditorStart)
   \<and> evaluated (accumulate ''personal.unlockAccount(a, b)'' lineEditorStart)
       = [''personal.unlockAccount(a, b)'' @ [CHR 0x0A]]
   \<and> hidepassword ''personal.unlockAccount(a, b)'' = []
   \<and> history (accumulate ''personal.unlockAccount(a, b)'' lineEditorStart) = []
   \<and> liner_AppendHistory (hidepassword ''personal.unlockAccount(a, b)'') (history lineEditorStart)
       = [[]]
   \<and> history (accumulate ''personal.unlockAccount(a, b)'' lineEditorStart)
       \<noteq> liner_AppendHistory (hidepassword ''personal.unlockAccount(a, b)'')
           (history lineEditorStart)"
proof -
  have s0: "str lineEditorStart = []" "history lineEditorStart = []"
    "evaluated lineEditorStart = []" "indentCount lineEditorStart = 0"
    by (simp_all add: lineEditorStart_def newJSRE_def)
  have n: "netDepth (str lineEditorStart @ ''personal.unlockAccount(a, b)'' @ [CHR 0x0A]) \<le> 0"
    by (simp add: netDepth_def Count_def s0)
  have m: "passwordRegexp_MatchString ''personal.unlockAccount(a, b)''"
    by (simp add: passwordRegexp_here_def HasPrefix_def rune_width_def)
  have h: "hidepassword ''personal.unlockAccount(a, b)'' = []"
    using m by (simp add: hidepassword_def passwordRepl_def)
  show ?thesis
    using h
    by (simp add: accumulate_submit [OF n] received_def s0 liner_AppendHistory_def
        HistoryLimit_def)
qed

end
